theory Spec2Isabelle
  imports Main "HOL-Library.Word" "HOL-Library.Signed_Division"
begin

section \<open>Data model\<close>

text \<open>
  The package \<open>wsecho\<close> (file \<open>wsecho.go\<close>) has an echo handler \<open>ServeHTTP\<close> and a
  latency probe \<open>Ping\<close>. Both talk to one websocket connection of the transport
  library. The connection, the clock and the parent context are the environment of the
  code: they are modelled by an explicit \<open>world\<close> that holds what the environment will
  answer, and by the list of wire items the peer delivers. Everything the code does to
  its environment is appended to the \<open>trace\<close> of the world, in program order.

  Go's \<open>int\<close> is taken to be the 64-bit integer of a 64-bit platform, and
  \<open>time.Duration\<close> is an \<open>int64\<close>: both are 64-bit words read as signed numbers, so
  that \<open>+\<close> and \<open>*\<close> wrap around as they do in Go.
\<close>

type_synonym bytes = "8 word list"
type_synonym go_int = "64 word"
type_synonym duration = "64 word"

text \<open>The message types of the transport (\<open>websocket.TextMessage\<close> and so on).\<close>

datatype msgtype = TextMessage | BinaryMessage | CloseMessage | PingMessage | PongMessage

text \<open>
  Errors are values. \<open>Wrapped m e\<close> is \<open>fmt.Errorf("m: %w", e)\<close>, \<open>CloseError\<close> is the
  transport's \<open>*websocket.CloseError\<close>, \<open>HandshakeError\<close> a failed upgrade, and
  \<open>TransportError\<close> any other failure of the connection.
\<close>

datatype go_error =
    TransportError string
  | HandshakeError string
  | CloseError int string
  | Wrapped string go_error

text \<open>The lines the code writes with \<open>log.Printf\<close> and \<open>log.Println\<close>.\<close>

datatype logline =
    LogError go_error
  | LogPing bytes
  | LogPong bytes
  | LogClose int string
  | LogRecv nat
  | LogSent go_int duration
  | LogAverage

text \<open>
  What arrives on the connection, in order: data frames, control frames, and failures of
  the underlying read.
\<close>

datatype wire =
    TextFrame bytes
  | BinaryFrame bytes
  | PingFrame bytes
  | PongFrame bytes
  | CloseFrame int string
  | ReadFail go_error

text \<open>
  The observable steps. \<open>ReadCall\<close> is a call of \<open>conn.ReadMessage\<close>, \<open>Recv\<close> an item the
  transport took off the wire during such a call, \<open>Write\<close> a call of
  \<open>conn.WriteMessage\<close> with its outcome, \<open>CloseConn\<close> a call of \<open>conn.Close\<close> with its
  outcome, \<open>Cancel\<close> a call of the context's \<open>cancel\<close> function.
\<close>

datatype event =
    Log logline
  | ReadCall
  | Recv wire
  | Write msgtype bytes "go_error option"
  | CloseConn "go_error option"
  | Cancel

text \<open>
  The environment's answers and the state of the run. \<open>write_results\<close> are the outcomes of
  the successive calls of \<open>WriteMessage\<close> (a call beyond the list succeeds),
  \<open>close_result\<close> the outcome of \<open>Close\<close>, \<open>parent_done\<close> whether the parent context is
  found done at the successive polls of \<open>ctx.Done()\<close> (not done beyond the list),
  \<open>clock\<close> the successive results of \<open>time.Since(start)\<close> (zero beyond the list).
  \<open>cancelled\<close> says whether \<open>cancel\<close> has been called.
\<close>

record world =
  write_results :: "go_error option list"
  close_result :: "go_error option"
  parent_done :: "bool list"
  clock :: "duration list"
  cancelled :: bool
  trace :: "event list"

record http_request =
  origin :: "string option"
  host :: string

record upgrader =
  CheckOrigin :: "http_request \<Rightarrow> bool"

record server =
  upgrader :: upgrader

text \<open>What one call of the handler or of the client meets.\<close>

record env =
  handshake :: "go_error option"
  frames :: "wire list"
  env_writes :: "go_error option list"
  env_close :: "go_error option"
  env_parent_done :: "bool list"
  env_clock :: "duration list"

definition init_world :: "env \<Rightarrow> world" where
  "init_world e =
     \<lparr>write_results = env_writes e, close_result = env_close e,
      parent_done = env_parent_done e, clock = env_clock e,
      cancelled = False, trace = []\<rparr>"

section \<open>The transport boundary\<close>

definition emit :: "event \<Rightarrow> world \<Rightarrow> world" where
  "emit ev w = w\<lparr>trace := trace w @ [ev]\<rparr>"

definition logf :: "logline \<Rightarrow> world \<Rightarrow> world" where
  "logf l w = emit (Log l) w"

text \<open>\<open>conn.WriteMessage(mt, data)\<close>: the environment decides whether it fails.\<close>

definition WriteMessage :: "msgtype \<Rightarrow> bytes \<Rightarrow> world \<Rightarrow> go_error option \<times> world" where
  "WriteMessage mt data w =
     (case write_results w of
        [] \<Rightarrow> (None, emit (Write mt data None) w)
      | r # rs \<Rightarrow> (r, emit (Write mt data r) (w\<lparr>write_results := rs\<rparr>)))"

text \<open>\<open>conn.Close()\<close>.\<close>

definition Close :: "world \<Rightarrow> go_error option \<times> world" where
  "Close w = (close_result w, emit (CloseConn (close_result w)) w)"

text \<open>The \<open>cancel\<close> function of \<open>context.WithCancel\<close>.\<close>

definition cancel :: "world \<Rightarrow> world" where
  "cancel w = (emit Cancel w)\<lparr>cancelled := True\<rparr>"

text \<open>
  One poll of \<open>select { case <-ctx.Done(): ... default: }\<close>. The context is derived from
  the parent's: it is done when \<open>cancel\<close> was called or the parent is done.
\<close>

definition ctx_done :: "world \<Rightarrow> bool \<times> world" where
  "ctx_done w =
     (case parent_done w of
        [] \<Rightarrow> (cancelled w, w)
      | b # bs \<Rightarrow> (cancelled w \<or> b, w\<lparr>parent_done := bs\<rparr>))"

text \<open>\<open>time.Since(start)\<close>.\<close>

definition time_since :: "world \<Rightarrow> duration \<times> world" where
  "time_since w =
     (case clock w of
        [] \<Rightarrow> (0, w)
      | d # ds \<Rightarrow> (d, w\<lparr>clock := ds\<rparr>))"

text \<open>
  The read error of a connection whose peer is gone. A list of wire items is finite: when
  it runs out the next read fails with this error.
\<close>

definition io_EOF :: go_error where
  "io_EOF = TransportError ''EOF''"

text \<open>
  The transport's frame loop inside \<open>ReadMessage\<close>, as the library documents it: control
  frames are handed to the registered handlers while reading; an error of a handler is
  the error of the read; a close frame ends the read with a \<open>CloseError\<close> once the close
  handler has returned; a text or a binary frame is returned to the caller. The three
  handlers are parameters: they are what \<open>SetPingHandler\<close>, \<open>SetPongHandler\<close> and
  \<open>SetCloseHandler\<close> registered.
\<close>

fun advanceFrames ::
  "(bytes \<Rightarrow> world \<Rightarrow> go_error option \<times> world) \<Rightarrow>
   (bytes \<Rightarrow> world \<Rightarrow> go_error option \<times> world) \<Rightarrow>
   (int \<Rightarrow> string \<Rightarrow> world \<Rightarrow> go_error option \<times> world) \<Rightarrow>
   wire list \<Rightarrow> world \<Rightarrow> (go_error + msgtype \<times> bytes) \<times> wire list \<times> world" where
  "advanceFrames hping hpong hclose [] w = (Inl io_EOF, [], w)"
| "advanceFrames hping hpong hclose (ReadFail err # rest) w =
     (Inl err, rest, emit (Recv (ReadFail err)) w)"
| "advanceFrames hping hpong hclose (TextFrame p # rest) w =
     (Inr (TextMessage, p), rest, emit (Recv (TextFrame p)) w)"
| "advanceFrames hping hpong hclose (BinaryFrame p # rest) w =
     (Inr (BinaryMessage, p), rest, emit (Recv (BinaryFrame p)) w)"
| "advanceFrames hping hpong hclose (PingFrame p # rest) w =
     (case hping p (emit (Recv (PingFrame p)) w) of
        (Some err, w') \<Rightarrow> (Inl err, rest, w')
      | (None, w') \<Rightarrow> advanceFrames hping hpong hclose rest w')"
| "advanceFrames hping hpong hclose (PongFrame p # rest) w =
     (case hpong p (emit (Recv (PongFrame p)) w) of
        (Some err, w') \<Rightarrow> (Inl err, rest, w')
      | (None, w') \<Rightarrow> advanceFrames hping hpong hclose rest w')"
| "advanceFrames hping hpong hclose (CloseFrame code text # rest) w =
     (case hclose code text (emit (Recv (CloseFrame code text)) w) of
        (Some err, w') \<Rightarrow> (Inl err, rest, w')
      | (None, w') \<Rightarrow> (Inl (CloseError code text), rest, w'))"

section \<open>The handlers of the source\<close>

text \<open>
  The ping, pong and close handlers (lines 79 to 94 in \<open>ServeHTTP\<close>, and the same text at
  lines 139 to 154 in \<open>Ping\<close>).
\<close>

definition pingHandler :: "bytes \<Rightarrow> world \<Rightarrow> go_error option \<times> world" where
  "pingHandler appData w = WriteMessage PongMessage appData (logf (LogPing appData) w)"

definition pongHandler :: "bytes \<Rightarrow> world \<Rightarrow> go_error option \<times> world" where
  "pongHandler appData w = (None, logf (LogPong appData) w)"

definition closeHandler :: "int \<Rightarrow> string \<Rightarrow> world \<Rightarrow> go_error option \<times> world" where
  "closeHandler code text w = (None, cancel (logf (LogClose code text) w))"

text \<open>\<open>conn.ReadMessage()\<close> on a connection with these handlers registered.\<close>

definition ReadMessage ::
  "wire list \<Rightarrow> world \<Rightarrow> (go_error + msgtype \<times> bytes) \<times> wire list \<times> world" where
  "ReadMessage ins w = advanceFrames pingHandler pongHandler closeHandler ins (emit ReadCall w)"

text \<open>The deferred \<open>conn.Close()\<close> with its log line (lines 72 to 76 and 132 to 136).\<close>

definition deferred_close :: "world \<Rightarrow> world" where
  "deferred_close w =
     (case Close w of
        (Some err, w') \<Rightarrow> logf (LogError (Wrapped ''couldn't close'' err)) w'
      | (None, w') \<Rightarrow> w')"

section \<open>The server\<close>

definition NewServer :: server where
  "NewServer = \<lparr>upgrader = \<lparr>CheckOrigin = (\<lambda>r. True)\<rparr>\<rparr>"

definition origin_not_allowed :: go_error where
  "origin_not_allowed =
     HandshakeError ''websocket: request origin not allowed by Upgrader.CheckOrigin''"

text \<open>
  \<open>upgrader.Upgrade(w, r, nil)\<close>: the transport refuses the request when the upgrader's
  \<open>CheckOrigin\<close> says no; whether the rest of the handshake succeeds is the
  environment's answer.
\<close>

definition Upgrade :: "upgrader \<Rightarrow> http_request \<Rightarrow> go_error option \<Rightarrow> go_error option" where
  "Upgrade u r hs = (if \<not> CheckOrigin u r then Some origin_not_allowed else hs)"

text \<open>The echo loop, lines 97 to 113.\<close>

function echo_loop :: "wire list \<Rightarrow> world \<Rightarrow> world" where
  "echo_loop ins w =
     (case ctx_done w of
        (True, w0) \<Rightarrow> w0
      | (False, w0) \<Rightarrow>
          (case ReadMessage ins w0 of
             (Inl err, ins', w1) \<Rightarrow> logf (LogError (Wrapped ''couldn't read'' err)) w1
           | (Inr (mt, message), ins', w1) \<Rightarrow>
               (case WriteMessage mt message (logf (LogRecv (length message)) w1) of
                  (Some err, w2) \<Rightarrow> logf (LogError (Wrapped ''couldn't write'' err)) w2
                | (None, w2) \<Rightarrow> echo_loop ins' w2)))"
  by pat_completeness auto
termination
proof (relation "measure (\<lambda>(ins, w). length ins)")
  show "wf (measure (\<lambda>(ins, w). length ins))"
    by simp
next
  fix ins :: "wire list" and w w0 w1 w2 :: world and ins' mt message x xa y xb ya xc yb xd
  assume rd: "(xa, y) = ReadMessage ins w0" and y: "(ins', w1) = y" and xa: "xa = Inr xb"
  have shrink: "fst (advanceFrames hp hq hc js v) = Inr r \<Longrightarrow>
      length (fst (snd (advanceFrames hp hq hc js v))) < length js" for hp hq hc js v r
  proof (induction hp hq hc js v rule: advanceFrames.induct)
    case (5 hping hpong hclose p rest w)
    then show ?case
      by (cases "hping p (emit (Recv (PingFrame p)) w)") (auto split: option.splits)
  next
    case (6 hping hpong hclose p rest w)
    then show ?case
      by (cases "hpong p (emit (Recv (PongFrame p)) w)") (auto split: option.splits)
  next
    case (7 hping hpong hclose code reason rest w)
    then show ?case
      by (cases "hclose code reason (emit (Recv (CloseFrame code reason)) w)")
        (auto split: option.splits)
  qed simp_all
  from rd y xa have "fst (ReadMessage ins w0) = Inr xb" and "fst (snd (ReadMessage ins w0)) = ins'"
    by (metis fst_conv, metis fst_conv snd_conv)
  then have "length ins' < length ins"
    unfolding ReadMessage_def using shrink by blast
  then show "((ins', w2), (ins, w)) \<in> measure (\<lambda>(ins, w). length ins)"
    by simp
qed

text \<open>\<open>ServeHTTP\<close>, lines 62 to 114. The deferred calls run in reverse order.\<close>

definition ServeHTTP :: "server \<Rightarrow> http_request \<Rightarrow> env \<Rightarrow> world" where
  "ServeHTTP s r e =
     (case Upgrade (upgrader s) r (handshake e) of
        Some err \<Rightarrow> cancel (logf (LogError (Wrapped ''couldn't upgrade'' err)) (init_world e))
      | None \<Rightarrow> cancel (deferred_close (echo_loop (frames e) (init_world e))))"

section \<open>The client\<close>

text \<open>
  How a Go function ends: it returns an error value (\<open>None\<close> is \<open>nil\<close>) or it panics.
  The measurement loop is left either to the code after it (by \<open>break\<close> or because its
  condition fails), with the samples collected so far, or by leaving \<open>Ping\<close> at once.
\<close>

datatype outcome = Returned "go_error option" | Panicked

datatype loop_exit = LoopDone "duration list" | Exit outcome

text \<open>
  Go's \<open>/\<close> on \<open>int64\<close>: the quotient truncated towards zero, in 64 bits. It is only used
  with a positive divisor here (the guard \<open>len(elapseds) > 0\<close>).
\<close>

definition go_div :: "duration \<Rightarrow> duration \<Rightarrow> duration" where
  "go_div a b = word_of_int (sint a sdiv sint b)"

text \<open>
  The loop of lines 158 to 176. \<open>make([]byte, size)\<close> panics when \<open>size\<close> is negative;
  the argument is evaluated before \<open>WriteMessage\<close> is called. A size that the runtime
  cannot allocate ends the program as well; the model covers the sizes that can be
  allocated. The reply's type and payload are not looked at (\<open>_, _, err := ...\<close>).
\<close>

function ping_loop ::
  "go_int \<Rightarrow> go_int \<Rightarrow> go_int \<Rightarrow> duration list \<Rightarrow> wire list \<Rightarrow> world \<Rightarrow> loop_exit \<times> world" where
  "ping_loop i n sz elapseds ins w =
     (if i <s n then
        (case ctx_done w of
           (True, w0) \<Rightarrow> (Exit (Returned None), w0)
         | (False, w0) \<Rightarrow>
             (if sz <s 0 then (Exit Panicked, w0)
              else
                (case WriteMessage BinaryMessage (replicate (nat (sint sz)) 0) w0 of
                   (Some err, w1) \<Rightarrow> (Exit (Returned (Some (Wrapped ''couldn't write'' err))), w1)
                 | (None, w1) \<Rightarrow>
                     (case ReadMessage ins w1 of
                        (Inl err, ins', w2) \<Rightarrow>
                          (LoopDone elapseds, logf (LogError (Wrapped ''couldn't read'' err)) w2)
                      | (Inr m, ins', w2) \<Rightarrow>
                          (case time_since w2 of
                             (elapsed, w3) \<Rightarrow>
                               ping_loop (i + 1) n sz (elapseds @ [elapsed]) ins'
                                 (logf (LogSent sz elapsed) w3))))))
      else (LoopDone elapseds, w))"
  by pat_completeness auto
termination
proof (relation "measure (\<lambda>(i, n, sz, elapseds, ins, w). nat (sint n - sint i))")
  show "wf (measure (\<lambda>(i, n, sz, elapseds, ins, w). nat (sint n - sint i)))"
    by simp
next
  fix i n sz :: go_int and elapseds :: "duration list" and ins ins' :: "wire list"
    and w w3 :: world and elapsed :: duration
  assume lt: "i <s n"
  have "sint i < sint n"
    using lt by (simp add: word_sless_alt)
  moreover have "sint n < 2 ^ 63"
    using sint_lt [of n] by simp
  moreover have "- (2 ^ 63) \<le> sint i"
    using sint_ge [of i] by simp
  ultimately have "sint (i + 1) = sint i + 1"
    by (simp add: sint_word_ariths signed_take_bit_int_eq_self)
  then show "((i + 1, n, sz, elapseds @ [elapsed], ins', logf (LogSent sz elapsed) w3),
      (i, n, sz, elapseds, ins, w))
    \<in> measure (\<lambda>(i, n, sz, elapseds, ins, w). nat (sint n - sint i))"
    using \<open>sint i < sint n\<close> by simp
qed

text \<open>The summary of lines 179 to 186: \<open>sum\<close> is accumulated with Go's wrapping \<open>+=\<close>.\<close>

definition report_average :: "go_int \<Rightarrow> duration list \<Rightarrow> world \<Rightarrow> world" where
  "report_average sz elapseds w =
     (if length elapseds > 0 then
        logf (LogSent (sz * of_nat (length elapseds))
               (go_div (fold (\<lambda>d sum. sum + d) elapseds 0) (of_nat (length elapseds))))
          (logf LogAverage w)
      else w)"

text \<open>
  \<open>Ping\<close>, lines 116 to 188. The dial's outcome is the environment's \<open>handshake\<close>; the
  deferred \<open>conn.Close()\<close> and \<open>cancel()\<close> run on every way out, a panic included.
\<close>

definition Ping :: "env \<Rightarrow> go_int \<Rightarrow> go_int \<Rightarrow> outcome \<times> world" where
  "Ping e n sz =
     (case handshake e of
        Some err \<Rightarrow> (Returned (Some (Wrapped ''couldn't dial'' err)), cancel (init_world e))
      | None \<Rightarrow>
          (case ping_loop 0 n sz [] (frames e) (init_world e) of
             (LoopDone elapseds, w) \<Rightarrow>
               (Returned None, cancel (deferred_close (report_average sz elapseds w)))
           | (Exit out, w) \<Rightarrow> (out, cancel (deferred_close w))))"

section \<open>Traces\<close>

text \<open>
  What one call of \<open>ReadMessage\<close> adds to the trace after its \<open>ReadCall\<close>, with the
  result of the call, and what the echo loop adds. These describe the runs of the
  functions above: see \<open>ReadMessage_spec\<close> and \<open>echo_loop_spec\<close>.
\<close>

inductive read_events :: "event list \<Rightarrow> (go_error + msgtype \<times> bytes) \<Rightarrow> bool" where
  re_eof: "read_events [] (Inl io_EOF)"
| re_fail: "read_events [Recv (ReadFail err)] (Inl err)"
| re_text: "read_events [Recv (TextFrame p)] (Inr (TextMessage, p))"
| re_binary: "read_events [Recv (BinaryFrame p)] (Inr (BinaryMessage, p))"
| re_ping_fail:
    "read_events [Recv (PingFrame p), Log (LogPing p), Write PongMessage p (Some err)] (Inl err)"
| re_ping:
    "read_events evs r \<Longrightarrow>
     read_events (Recv (PingFrame p) # Log (LogPing p) # Write PongMessage p None # evs) r"
| re_pong:
    "read_events evs r \<Longrightarrow> read_events (Recv (PongFrame p) # Log (LogPong p) # evs) r"
| re_close:
    "read_events [Recv (CloseFrame c t), Log (LogClose c t), Cancel] (Inl (CloseError c t))"

inductive echo_events :: "event list \<Rightarrow> bool" where
  ee_done: "echo_events []"
| ee_read_fail:
    "read_events evs (Inl err) \<Longrightarrow>
     echo_events (ReadCall # evs @ [Log (LogError (Wrapped ''couldn't read'' err))])"
| ee_write_fail:
    "read_events evs (Inr (mt, p)) \<Longrightarrow>
     echo_events (ReadCall # evs @
       [Log (LogRecv (length p)), Write mt p (Some err),
        Log (LogError (Wrapped ''couldn't write'' err))])"
| ee_echo:
    "read_events evs (Inr (mt, p)) \<Longrightarrow> echo_events rest \<Longrightarrow>
     echo_events (ReadCall # evs @ Log (LogRecv (length p)) # Write mt p None # rest)"

text \<open>
  What the measurement loop of \<open>Ping\<close> adds to the trace when it starts iteration \<open>i\<close>
  with the samples \<open>es\<close>, and how it ends: see \<open>ping_loop_spec\<close>.
\<close>

inductive ping_events ::
  "go_int \<Rightarrow> go_int \<Rightarrow> go_int \<Rightarrow> duration list \<Rightarrow> event list \<Rightarrow> loop_exit \<Rightarrow> bool" where
  pe_end: "\<not> i <s n \<Longrightarrow> ping_events n sz i es [] (LoopDone es)"
| pe_cancel: "i <s n \<Longrightarrow> ping_events n sz i es [] (Exit (Returned None))"
| pe_panic: "i <s n \<Longrightarrow> sz <s 0 \<Longrightarrow> ping_events n sz i es [] (Exit Panicked)"
| pe_write_fail:
    "i <s n \<Longrightarrow> \<not> sz <s 0 \<Longrightarrow>
     ping_events n sz i es [Write BinaryMessage (replicate (nat (sint sz)) 0) (Some err)]
       (Exit (Returned (Some (Wrapped ''couldn't write'' err))))"
| pe_read_fail:
    "i <s n \<Longrightarrow> \<not> sz <s 0 \<Longrightarrow> read_events evs (Inl err) \<Longrightarrow>
     ping_events n sz i es
       (Write BinaryMessage (replicate (nat (sint sz)) 0) None # ReadCall # evs @
          [Log (LogError (Wrapped ''couldn't read'' err))])
       (LoopDone es)"
| pe_round:
    "i <s n \<Longrightarrow> \<not> sz <s 0 \<Longrightarrow> read_events evs (Inr m) \<Longrightarrow>
     ping_events n sz (i + 1) (es @ [d]) rest x \<Longrightarrow>
     ping_events n sz i es
       (Write BinaryMessage (replicate (nat (sint sz)) 0) None # ReadCall # evs @
          Log (LogSent sz d) # rest)
       x"

text \<open>
  The steps of the two deferred calls, \<open>conn.Close()\<close> with its log line and \<open>cancel()\<close>,
  and the two lines of the summary.
\<close>

definition teardown :: "go_error option \<Rightarrow> event list" where
  "teardown c =
     CloseConn c #
       (case c of None \<Rightarrow> [] | Some err \<Rightarrow> [Log (LogError (Wrapped ''couldn't close'' err))]) @
       [Cancel]"

definition average_lines :: "go_int \<Rightarrow> duration list \<Rightarrow> event list" where
  "average_lines sz ds =
     (if ds = [] then []
      else [Log LogAverage,
            Log (LogSent (sz * of_nat (length ds))
                   (go_div (fold (\<lambda>d sum. sum + d) ds 0) (of_nat (length ds))))])"

text \<open>
  The echo discipline, as a monitor that reads a trace event by event. A text or binary
  frame handed to the loop is owed back; while it is owed only log lines may happen, and
  the next other step must be the write of the same type and payload. A text or binary
  write that answers no frame, or any other step (the next read included) while a frame
  is owed, breaks the discipline for good.
\<close>

datatype echo_state = Idle | Owes msgtype bytes | Broken

fun echo_step :: "echo_state \<Rightarrow> event \<Rightarrow> echo_state" where
  "echo_step Broken ev = Broken"
| "echo_step Idle (Recv (TextFrame p)) = Owes TextMessage p"
| "echo_step Idle (Recv (BinaryFrame p)) = Owes BinaryMessage p"
| "echo_step Idle (Write mt p r) =
     (if mt = TextMessage \<or> mt = BinaryMessage then Broken else Idle)"
| "echo_step Idle ev = Idle"
| "echo_step (Owes mt p) (Write mt' p' r) = (if mt' = mt \<and> p' = p then Idle else Broken)"
| "echo_step (Owes mt p) (Log l) = Owes mt p"
| "echo_step (Owes mt p) ev = Broken"

fun frames_read :: "event list \<Rightarrow> (msgtype \<times> bytes) list" where
  "frames_read [] = []"
| "frames_read (Recv (TextFrame p) # evs) = (TextMessage, p) # frames_read evs"
| "frames_read (Recv (BinaryFrame p) # evs) = (BinaryMessage, p) # frames_read evs"
| "frames_read (ev # evs) = frames_read evs"

fun frames_written :: "event list \<Rightarrow> (msgtype \<times> bytes) list" where
  "frames_written [] = []"
| "frames_written (Write mt p r # evs) =
     (if mt = TextMessage \<or> mt = BinaryMessage then (mt, p) # frames_written evs
      else frames_written evs)"
| "frames_written (ev # evs) = frames_written evs"

fun owed :: "echo_state \<Rightarrow> (msgtype \<times> bytes) list" where
  "owed (Owes mt p) = (if mt = TextMessage \<or> mt = BinaryMessage then [(mt, p)] else [])"
| "owed st = []"

text \<open>
  The ping and pong discipline, as a monitor. A ping taken off the wire must be followed
  at once by its log line and then by the write of a pong with the same payload; a pong
  taken off the wire must be followed at once by its log line, and the step after that
  is no write. A pong written, or a ping or pong line logged, at any other place is
  wrong for good.
\<close>

datatype pong_state = Quiet | PingSeen bytes | PingLogged bytes | PongSeen bytes | PongLogged | Wrong

fun pong_step :: "pong_state \<Rightarrow> event \<Rightarrow> pong_state" where
  "pong_step Wrong ev = Wrong"
| "pong_step (PingSeen p) ev = (if ev = Log (LogPing p) then PingLogged p else Wrong)"
| "pong_step (PingLogged p) ev =
     (case ev of
        Write mt d r \<Rightarrow> if mt = PongMessage \<and> d = p then Quiet else Wrong
      | _ \<Rightarrow> Wrong)"
| "pong_step (PongSeen p) ev = (if ev = Log (LogPong p) then PongLogged else Wrong)"
| "pong_step PongLogged (Write mt d r) = Wrong"
| "pong_step st (Recv (PingFrame p)) = PingSeen p"
| "pong_step st (Recv (PongFrame p)) = PongSeen p"
| "pong_step st (Write mt d r) = (if mt = PongMessage then Wrong else Quiet)"
| "pong_step st (Log (LogPing p)) = Wrong"
| "pong_step st (Log (LogPong p)) = Wrong"
| "pong_step st ev = Quiet"

fun pings_read :: "event list \<Rightarrow> bytes list" where
  "pings_read [] = []"
| "pings_read (Recv (PingFrame p) # evs) = p # pings_read evs"
| "pings_read (ev # evs) = pings_read evs"

fun pongs_written :: "event list \<Rightarrow> bytes list" where
  "pongs_written [] = []"
| "pongs_written (Write mt d r # evs) =
     (if mt = PongMessage then d # pongs_written evs else pongs_written evs)"
| "pongs_written (ev # evs) = pongs_written evs"

fun calm :: "pong_state \<Rightarrow> bool" where
  "calm Quiet = True"
| "calm PongLogged = True"
| "calm st = False"

fun pending :: "pong_state \<Rightarrow> bytes list" where
  "pending (PingSeen p) = [p]"
| "pending (PingLogged p) = [p]"
| "pending st = []"

text \<open>The calls of \<open>conn.Close\<close> in a trace, and the traces in which no close frame arrives.\<close>

fun close_calls :: "event list \<Rightarrow> go_error option list" where
  "close_calls [] = []"
| "close_calls (CloseConn c # evs) = c # close_calls evs"
| "close_calls (ev # evs) = close_calls evs"

fun is_close_frame :: "event \<Rightarrow> bool" where
  "is_close_frame (Recv (CloseFrame c t)) = True"
| "is_close_frame ev = False"

definition no_close :: "event list \<Rightarrow> bool" where
  "no_close evs = (filter is_close_frame evs = [])"

text \<open>
  The durations of the lines \<open>sent ... bytes in ...\<close> of a trace, and the integers that a
  Go \<open>int64\<close> holds.
\<close>

fun sent_durations :: "event list \<Rightarrow> duration list" where
  "sent_durations [] = []"
| "sent_durations (Log (LogSent b d) # evs) = d # sent_durations evs"
| "sent_durations (ev # evs) = sent_durations evs"


text \<open>The inputs of the examples.\<close>

definition echo_env :: env where
  "echo_env =
     \<lparr>handshake = None,
      frames = [TextFrame [104, 105], PingFrame [7], BinaryFrame [0, 255], CloseFrame 1000 ''bye''],
      env_writes = [], env_close = None, env_parent_done = [], env_clock = []\<rparr>"

definition plain_request :: http_request where
  "plain_request = \<lparr>origin = None, host = ''localhost:9000''\<rparr>"

definition broken_pipe :: go_error where
  "broken_pipe = TransportError ''broken pipe''"

definition remote_close_env :: env where
  "remote_close_env =
     \<lparr>handshake = None, frames = [TextFrame [1], CloseFrame 1000 ''bye'', TextFrame [2]],
      env_writes = [], env_close = Some broken_pipe, env_parent_done = [], env_clock = []\<rparr>"

definition read_error_env :: env where
  "read_error_env =
     \<lparr>handshake = None, frames = [TextFrame [1], ReadFail broken_pipe],
      env_writes = [], env_close = None, env_parent_done = [], env_clock = []\<rparr>"

definition write_error_env :: env where
  "write_error_env =
     \<lparr>handshake = None, frames = [TextFrame [1], TextFrame [2]],
      env_writes = [None, Some broken_pipe], env_close = None, env_parent_done = [],
      env_clock = []\<rparr>"

definition cancelled_env :: env where
  "cancelled_env =
     \<lparr>handshake = None, frames = [TextFrame [1], TextFrame [2]],
      env_writes = [], env_close = None, env_parent_done = [False, True], env_clock = []\<rparr>"

definition three_replies_env :: env where
  "three_replies_env =
     \<lparr>handshake = None,
      frames = [BinaryFrame (replicate 16 0), BinaryFrame (replicate 16 0),
                BinaryFrame (replicate 16 0)],
      env_writes = [], env_close = None, env_parent_done = [], env_clock = [10, 20, 31]\<rparr>"



definition cancel_after_one_env :: env where
  "cancel_after_one_env =
     \<lparr>handshake = None, frames = [BinaryFrame [0, 0], BinaryFrame [0, 0]],
      env_writes = [], env_close = None, env_parent_done = [False, True],
      env_clock = [10, 20]\<rparr>"


definition control_env :: env where
  "control_env =
     \<lparr>handshake = None,
      frames = [PingFrame [1, 2], PongFrame [9], BinaryFrame [0], PingFrame [3], TextFrame [4]],
      env_writes = [], env_close = None, env_parent_done = [], env_clock = [5, 6]\<rparr>"

section \<open>Lemmas\<close>

declare echo_loop.simps [simp del] ping_loop.simps [simp del]

lemma trace_emit [simp]: "trace (emit ev w) = trace w @ [ev]"
  by (simp add: emit_def)

lemma trace_logf [simp]: "trace (logf l w) = trace w @ [Log l]"
  by (simp add: logf_def)

lemma trace_cancel [simp]: "trace (cancel w) = trace w @ [Cancel]"
  by (simp add: cancel_def)

lemma trace_WriteMessage [simp]:
  "trace (snd (WriteMessage mt d w)) = trace w @ [Write mt d (fst (WriteMessage mt d w))]"
  by (simp add: WriteMessage_def split: list.splits)

lemma trace_ctx_done [simp]: "trace (snd (ctx_done w)) = trace w"
  by (simp add: ctx_done_def split: list.splits)

lemma trace_time_since [simp]: "trace (snd (time_since w)) = trace w"
  by (simp add: time_since_def split: list.splits)

lemma trace_deferred_close [simp]:
  "trace (deferred_close w) =
     trace w @ CloseConn (close_result w) #
       (case close_result w of None \<Rightarrow> [] | Some err \<Rightarrow> [Log (LogError (Wrapped ''couldn't close'' err))])"
  by (simp add: deferred_close_def Close_def split: option.splits)

lemma close_result_emit [simp]: "close_result (emit ev w) = close_result w"
  by (simp add: emit_def)
lemma close_result_logf [simp]: "close_result (logf l w) = close_result w"
  by (simp add: logf_def)
lemma close_result_cancel [simp]: "close_result (cancel w) = close_result w"
  by (simp add: cancel_def)
lemma close_result_WriteMessage [simp]: "close_result (snd (WriteMessage mt d w)) = close_result w"
  by (simp add: WriteMessage_def split: list.splits)
lemma close_result_ctx_done [simp]: "close_result (snd (ctx_done w)) = close_result w"
  by (simp add: ctx_done_def split: list.splits)
lemma close_result_time_since [simp]: "close_result (snd (time_since w)) = close_result w"
  by (simp add: time_since_def split: list.splits)


lemma pingHandler_spec:
  "pingHandler p w = (r, w') \<Longrightarrow>
   trace w' = trace w @ [Log (LogPing p), Write PongMessage p r]
   \<and> close_result w' = close_result w \<and> clock w' = clock w \<and> parent_done w' = parent_done w"
  by (auto simp: pingHandler_def WriteMessage_def logf_def emit_def split: list.splits)

lemma pongHandler_spec:
  "pongHandler p w = (r, w') \<Longrightarrow>
   r = None \<and> trace w' = trace w @ [Log (LogPong p)]
   \<and> close_result w' = close_result w \<and> clock w' = clock w \<and> parent_done w' = parent_done w"
  by (auto simp: pongHandler_def logf_def emit_def)

lemma closeHandler_spec:
  "closeHandler c t w = (r, w') \<Longrightarrow>
   r = None \<and> trace w' = trace w @ [Log (LogClose c t), Cancel]
   \<and> close_result w' = close_result w \<and> clock w' = clock w \<and> parent_done w' = parent_done w"
  by (auto simp: closeHandler_def logf_def emit_def cancel_def)

lemma advanceFrames_spec:
  "advanceFrames pingHandler pongHandler closeHandler ins w = (r, ins', w') \<Longrightarrow>
   \<exists>evs. trace w' = trace w @ evs \<and> read_events evs r
     \<and> close_result w' = close_result w \<and> clock w' = clock w \<and> parent_done w' = parent_done w"
proof (induction ins arbitrary: w)
  case Nil
  then show ?case by (auto intro: read_events.intros)
next
  case (Cons a ins)
  show ?case
  proof (cases a)
    case (PingFrame p)
    obtain r1 w1 where h: "pingHandler p (emit (Recv (PingFrame p)) w) = (r1, w1)"
      by (cases "pingHandler p (emit (Recv (PingFrame p)) w)")
    note s = pingHandler_spec [OF h]
    show ?thesis
    proof (cases r1)
      case None
      with Cons.prems h PingFrame
      have "advanceFrames pingHandler pongHandler closeHandler ins w1 = (r, ins', w')"
        by simp
      from Cons.IH [OF this] obtain evs where
        "trace w' = trace w1 @ evs" "read_events evs r"
        "close_result w' = close_result w1" "clock w' = clock w1" "parent_done w' = parent_done w1"
        by blast
      with s None show ?thesis
        by (auto simp: emit_def intro!: read_events.re_ping)
    next
      case (Some err)
      with Cons.prems h PingFrame s show ?thesis
        by (auto simp: emit_def intro: read_events.intros)
    qed
  next
    case (PongFrame p)
    obtain r1 w1 where h: "pongHandler p (emit (Recv (PongFrame p)) w) = (r1, w1)"
      by (cases "pongHandler p (emit (Recv (PongFrame p)) w)")
    note s = pongHandler_spec [OF h]
    with Cons.prems h PongFrame
    have "advanceFrames pingHandler pongHandler closeHandler ins w1 = (r, ins', w')"
      by simp
    from Cons.IH [OF this] obtain evs where
      "trace w' = trace w1 @ evs" "read_events evs r"
      "close_result w' = close_result w1" "clock w' = clock w1" "parent_done w' = parent_done w1"
      by blast
    with s show ?thesis
      by (auto simp: emit_def intro!: read_events.re_pong)
  next
    case (CloseFrame c t)
    obtain r1 w1 where h: "closeHandler c t (emit (Recv (CloseFrame c t)) w) = (r1, w1)"
      by (cases "closeHandler c t (emit (Recv (CloseFrame c t)) w)")
    note s = closeHandler_spec [OF h]
    with Cons.prems h CloseFrame show ?thesis
      by (auto simp: emit_def intro: read_events.intros)
  qed (use Cons.prems in \<open>auto simp: emit_def intro: read_events.intros\<close>)
qed

lemma ReadMessage_spec:
  "ReadMessage ins w = (r, ins', w') \<Longrightarrow>
   \<exists>evs. trace w' = trace w @ ReadCall # evs \<and> read_events evs r
     \<and> close_result w' = close_result w \<and> clock w' = clock w \<and> parent_done w' = parent_done w"
  unfolding ReadMessage_def by (drule advanceFrames_spec) (auto simp: emit_def)


lemma ctx_done_spec:
  "ctx_done w = (b, w') \<Longrightarrow>
   trace w' = trace w \<and> close_result w' = close_result w \<and> clock w' = clock w
   \<and> write_results w' = write_results w \<and> cancelled w' = cancelled w"
  by (auto simp: ctx_done_def split: list.splits)

lemma WriteMessage_spec:
  "WriteMessage mt d w = (r, w') \<Longrightarrow>
   trace w' = trace w @ [Write mt d r] \<and> close_result w' = close_result w \<and> clock w' = clock w
   \<and> parent_done w' = parent_done w"
  by (auto simp: WriteMessage_def emit_def split: list.splits)

lemma echo_loop_spec:
  "\<exists>evs. trace (echo_loop ins w) = trace w @ evs \<and> echo_events evs
     \<and> close_result (echo_loop ins w) = close_result w"
proof (induction ins w rule: echo_loop.induct)
  case (1 ins w)
  obtain b w0 where c: "ctx_done w = (b, w0)"
    by (cases "ctx_done w")
  note cs = ctx_done_spec [OF c]
  show ?case
  proof (cases b)
    case True
    with c cs show ?thesis
      by (simp add: echo_loop.simps [of ins w] echo_events.ee_done)
  next
    case False
    obtain r ins' w1 where rd: "ReadMessage ins w0 = (r, ins', w1)"
      by (cases "ReadMessage ins w0")
    from ReadMessage_spec [OF rd] obtain evs where
      t1: "trace w1 = trace w0 @ ReadCall # evs" and re: "read_events evs r"
      and c1: "close_result w1 = close_result w0"
      by blast
    show ?thesis
    proof (cases r)
      case (Inl err)
      with c False rd t1 re c1 cs show ?thesis
        by (auto simp: echo_loop.simps [of ins w] intro: echo_events.ee_read_fail)
    next
      case (Inr m)
      obtain mt p where m: "m = (mt, p)"
        by (cases m)
      obtain r2 w2 where wr: "WriteMessage mt p (logf (LogRecv (length p)) w1) = (r2, w2)"
        by (cases "WriteMessage mt p (logf (LogRecv (length p)) w1)")
      note ws = WriteMessage_spec [OF wr]
      show ?thesis
      proof (cases r2)
        case (Some err)
        with c False rd t1 re c1 cs Inr m wr ws show ?thesis
          by (auto simp: echo_loop.simps [of ins w] intro: echo_events.ee_write_fail)
      next
        case None
        have "\<exists>evs. trace (echo_loop ins' w2) = trace w2 @ evs \<and> echo_events evs
           \<and> close_result (echo_loop ins' w2) = close_result w2"
          using False
          by (intro "1.IH" [of b w0 r "(ins', w1)" m mt p ins' w1 r2 w2,
                OF c [symmetric] _ rd [symmetric] Inr m [symmetric] refl wr [symmetric] None])
            simp
        then obtain rest where
          "trace (echo_loop ins' w2) = trace w2 @ rest" "echo_events rest"
          "close_result (echo_loop ins' w2) = close_result w2"
          by blast
        with c False rd t1 re c1 cs Inr m wr ws None show ?thesis
          by (auto simp: echo_loop.simps [of ins w] intro: echo_events.ee_echo)
      qed
    qed
  qed
qed


lemma echo_step_Broken [simp]: "foldl echo_step Broken evs = Broken"
  by (induction evs) simp_all

lemma read_events_echo:
  "read_events evs r \<Longrightarrow>
   foldl echo_step Idle evs = (case r of Inl err \<Rightarrow> Idle | Inr (mt, p) \<Rightarrow> Owes mt p)"
  by (induction rule: read_events.induct) simp_all

lemma echo_events_echo: "echo_events evs \<Longrightarrow> foldl echo_step Idle evs = Idle"
  by (induction rule: echo_events.induct) (simp_all add: read_events_echo)

lemma echo_monitor_frames:
  "foldl echo_step st evs = Idle \<Longrightarrow> frames_written evs = owed st @ frames_read evs"
proof (induction evs arbitrary: st)
  case Nil
  then show ?case by simp
next
  case (Cons ev evs)
  show ?case
  proof (cases st)
    case Idle
    show ?thesis
    proof (cases ev)
      case (Recv x)
      with Idle Cons.prems Cons.IH [of "echo_step Idle ev"] show ?thesis
        by (cases x) auto
    qed (use Idle Cons.prems Cons.IH [of "echo_step Idle ev"] in \<open>auto split: if_splits\<close>)
  next
    case (Owes mt p)
    with Cons.prems Cons.IH [of "echo_step (Owes mt p) ev"] show ?thesis
      by (cases ev) (auto split: if_splits)
  next
    case Broken
    with Cons.prems show ?thesis by simp
  qed
qed


lemma init_world_simps [simp]:
  "trace (init_world e) = []" "close_result (init_world e) = env_close e"
  "cancelled (init_world e) = False" "clock (init_world e) = env_clock e"
  by (simp_all add: init_world_def)

lemma ServeHTTP_trace:
  "\<exists>evs. echo_events evs \<and>
     trace (ServeHTTP s r e) =
       (case Upgrade (upgrader s) r (handshake e) of
          Some err \<Rightarrow> [Log (LogError (Wrapped ''couldn't upgrade'' err)), Cancel]
        | None \<Rightarrow>
            evs @ CloseConn (env_close e) #
              (case env_close e of None \<Rightarrow> []
               | Some err \<Rightarrow> [Log (LogError (Wrapped ''couldn't close'' err))]) @ [Cancel])"
proof -
  from echo_loop_spec [of "frames e" "init_world e"] obtain evs where
    "trace (echo_loop (frames e) (init_world e)) = evs" "echo_events evs"
    "close_result (echo_loop (frames e) (init_world e)) = env_close e"
    by auto
  then show ?thesis
    by (auto simp: ServeHTTP_def split: option.splits)
qed

lemma read_events_data:
  "read_events evs (Inr (mt, p)) \<Longrightarrow> mt = TextMessage \<or> mt = BinaryMessage"
  by (induction evs "Inr (mt, p) :: go_error + msgtype \<times> bytes" rule: read_events.induct) auto

lemma time_since_spec:
  "time_since w = (d, w') \<Longrightarrow> trace w' = trace w \<and> close_result w' = close_result w"
  by (auto simp: time_since_def split: list.splits)

lemma ping_loop_spec:
  "ping_loop i n sz es ins w = (x, w') \<Longrightarrow>
   \<exists>evs. trace w' = trace w @ evs \<and> ping_events n sz i es evs x
     \<and> close_result w' = close_result w"
proof (induction i n sz es ins w rule: ping_loop.induct)
  case (1 i n sz es ins w)
  note run = "1.prems"
  show ?case
  proof (cases "i <s n")
    case False
    with run show ?thesis
      by (auto simp: ping_loop.simps [of i n sz es ins w] intro: ping_events.pe_end)
  next
    case lt: True
    obtain b w0 where c: "ctx_done w = (b, w0)"
      by (cases "ctx_done w")
    note cs = ctx_done_spec [OF c]
    show ?thesis
    proof (cases b)
      case True
      with run lt c cs show ?thesis
        by (auto simp: ping_loop.simps [of i n sz es ins w] intro: ping_events.pe_cancel)
    next
      case nb: False
      show ?thesis
      proof (cases "sz <s 0")
        case True
        with run lt c cs nb show ?thesis
          by (auto simp: ping_loop.simps [of i n sz es ins w] intro: ping_events.pe_panic)
      next
        case ok: False
        obtain r1 w1 where
          wr: "WriteMessage BinaryMessage (replicate (nat (sint sz)) 0) w0 = (r1, w1)"
          by (cases "WriteMessage BinaryMessage (replicate (nat (sint sz)) 0) w0")
        note ws = WriteMessage_spec [OF wr]
        show ?thesis
        proof (cases r1)
          case (Some err)
          with run lt c cs nb ok wr ws show ?thesis
            by (auto simp: ping_loop.simps [of i n sz es ins w] intro: ping_events.pe_write_fail)
        next
          case None
          obtain r ins' w2 where rd: "ReadMessage ins w1 = (r, ins', w2)"
            by (cases "ReadMessage ins w1")
          from ReadMessage_spec [OF rd] obtain evs where
            t2: "trace w2 = trace w1 @ ReadCall # evs" and re: "read_events evs r"
            and c2: "close_result w2 = close_result w1"
            by blast
          show ?thesis
          proof (cases r)
            case (Inl err)
            with run lt c cs nb ok wr ws None rd t2 re c2 show ?thesis
              by (auto simp: ping_loop.simps [of i n sz es ins w] intro: ping_events.pe_read_fail)
          next
            case (Inr m)
            obtain d w3 where ts: "time_since w2 = (d, w3)"
              by (cases "time_since w2")
            note tss = time_since_spec [OF ts]
            have rec: "ping_loop (i + 1) n sz (es @ [d]) ins' (logf (LogSent sz d) w3) = (x, w')"
              using run lt c nb ok wr None rd Inr ts
              by (simp add: ping_loop.simps [of i n sz es ins w])
            have "\<exists>evs. trace w' = trace (logf (LogSent sz d) w3) @ evs
                \<and> ping_events n sz (i + 1) (es @ [d]) evs x
                \<and> close_result w' = close_result (logf (LogSent sz d) w3)"
              using nb
              by (intro "1.IH" [of b w0 r1 w1 r "(ins', w2)" m ins' w2 d w3,
                    OF lt c [symmetric] _ ok wr [symmetric] None rd [symmetric] Inr refl
                      ts [symmetric] rec])
                simp
            then obtain rest where
              "trace w' = trace (logf (LogSent sz d) w3) @ rest"
              "ping_events n sz (i + 1) (es @ [d]) rest x"
              "close_result w' = close_result (logf (LogSent sz d) w3)"
              by blast
            with lt cs ok ws t2 re c2 Inr tss None show ?thesis
              by (auto intro: ping_events.pe_round)
          qed
        qed
      qed
    qed
  qed
qed


lemma trace_report_average [simp]:
  "trace (report_average sz ds w) = trace w @ average_lines sz ds"
  by (simp add: report_average_def average_lines_def)

lemma close_result_report_average [simp]:
  "close_result (report_average sz ds w) = close_result w"
  by (simp add: report_average_def)

lemma ServeHTTP_run:
  assumes "Upgrade (upgrader s) r (handshake e) = None"
  obtains evs where "echo_events evs"
    and "trace (ServeHTTP s r e) = evs @ teardown (env_close e)"
proof -
  from echo_loop_spec [of "frames e" "init_world e"] obtain evs where
    "trace (echo_loop (frames e) (init_world e)) = evs" "echo_events evs"
    "close_result (echo_loop (frames e) (init_world e)) = env_close e"
    by auto
  with assms that show ?thesis
    by (auto simp: ServeHTTP_def teardown_def)
qed

lemma Ping_dial_failure:
  "handshake e = Some err \<Longrightarrow>
   Ping e n sz = (Returned (Some (Wrapped ''couldn't dial'' err)), cancel (init_world e))"
  by (simp add: Ping_def)

lemma Ping_run:
  assumes "handshake e = None"
  obtains evs x w' where "ping_loop 0 n sz [] (frames e) (init_world e) = (x, w')"
    and "ping_events n sz 0 [] evs x"
    and "trace w' = evs"
    and "fst (Ping e n sz) = (case x of LoopDone ds \<Rightarrow> Returned None | Exit out \<Rightarrow> out)"
    and "trace (snd (Ping e n sz)) =
           evs @ (case x of LoopDone ds \<Rightarrow> average_lines sz ds | Exit out \<Rightarrow> []) @
             teardown (env_close e)"
proof -
  obtain x w' where run: "ping_loop 0 n sz [] (frames e) (init_world e) = (x, w')"
    by (cases "ping_loop 0 n sz [] (frames e) (init_world e)")
  from ping_loop_spec [OF run] obtain evs where
    ev: "trace w' = evs" "ping_events n sz 0 [] evs x" "close_result w' = env_close e"
    by auto
  show ?thesis
  proof (rule that [OF run ev(2) ev(1)])
    show "fst (Ping e n sz) = (case x of LoopDone ds \<Rightarrow> Returned None | Exit out \<Rightarrow> out)"
      using assms run by (simp add: Ping_def split: loop_exit.splits)
    show "trace (snd (Ping e n sz)) =
           evs @ (case x of LoopDone ds \<Rightarrow> average_lines sz ds | Exit out \<Rightarrow> []) @
             teardown (env_close e)"
      using assms run ev by (simp add: Ping_def teardown_def split: loop_exit.splits)
  qed
qed

lemma pong_step_Wrong [simp]: "foldl pong_step Wrong evs = Wrong"
  by (induction evs) simp_all

lemma calm_cases: "calm st \<longleftrightarrow> st = Quiet \<or> st = PongLogged"
  by (cases st) simp_all

lemma read_events_pong:
  "read_events evs r \<Longrightarrow> calm st \<Longrightarrow>
   calm (foldl pong_step st evs) \<and> (\<forall>m. r = Inr m \<longrightarrow> foldl pong_step st evs = Quiet)"
proof (induction arbitrary: st rule: read_events.induct)
  case (re_ping evs r p)
  have "foldl pong_step st [Recv (PingFrame p), Log (LogPing p), Write PongMessage p None] = Quiet"
    using re_ping.prems by (auto simp: calm_cases)
  then show ?case
    using re_ping.IH [of Quiet] by simp
next
  case (re_pong evs r p)
  have "foldl pong_step st [Recv (PongFrame p), Log (LogPong p)] = PongLogged"
    using re_pong.prems by (auto simp: calm_cases)
  then show ?case
    using re_pong.IH [of PongLogged] by simp
qed (auto simp: calm_cases)

lemma echo_events_pong: "echo_events evs \<Longrightarrow> foldl pong_step Quiet evs = Quiet"
proof (induction rule: echo_events.induct)
  case ee_done
  show ?case by simp
next
  case (ee_read_fail evs err)
  from read_events_pong [OF this, of Quiet] show ?case
    by (auto simp: calm_cases)
next
  case (ee_write_fail evs mt p err)
  from read_events_pong [OF this, of Quiet] read_events_data [OF this] show ?case
    by auto
next
  case (ee_echo evs mt p rest)
  from read_events_pong [OF this(1), of Quiet] read_events_data [OF this(1)] this(3) show ?case
    by auto
qed


lemma ping_events_pong: "ping_events n sz i es evs x \<Longrightarrow> foldl pong_step Quiet evs = Quiet"
proof (induction rule: ping_events.induct)
  case (pe_read_fail i n sz evs err es)
  from read_events_pong [OF this(3), of Quiet] show ?case
    by (auto simp: calm_cases)
next
  case (pe_round i n sz evs m es d rest x)
  from read_events_pong [OF this(3), of Quiet] this(5) show ?case
    by auto
qed simp_all

lemma pong_monitor_payloads:
  "calm (foldl pong_step st evs) \<Longrightarrow> pongs_written evs = pending st @ pings_read evs"
proof (induction evs arbitrary: st)
  case Nil
  then show ?case by (cases st) simp_all
next
  case (Cons ev evs)
  note ih = Cons.IH [of "pong_step st ev"]
  show ?case
  proof (cases st)
    case Quiet
    show ?thesis
    proof (cases ev)
      case (Recv x)
      with Quiet Cons.prems ih show ?thesis by (cases x) auto
    next
      case (Log l)
      with Quiet Cons.prems ih show ?thesis by (cases l) auto
    qed (use Quiet Cons.prems ih in \<open>auto split: if_splits\<close>)
  next
    case PongLogged
    show ?thesis
    proof (cases ev)
      case (Recv x)
      with PongLogged Cons.prems ih show ?thesis by (cases x) auto
    next
      case (Log l)
      with PongLogged Cons.prems ih show ?thesis by (cases l) auto
    qed (use PongLogged Cons.prems ih in \<open>auto split: if_splits\<close>)
  next
    case (PingSeen p)
    with Cons.prems ih show ?thesis by (auto split: if_splits)
  next
    case (PingLogged p)
    with Cons.prems ih show ?thesis by (cases ev) (auto split: if_splits)
  next
    case (PongSeen p)
    with Cons.prems ih show ?thesis by (auto split: if_splits)
  next
    case Wrong
    with Cons.prems show ?thesis by simp
  qed
qed

lemma teardown_pong [simp]: "foldl pong_step Quiet (teardown c) = Quiet"
  by (simp add: teardown_def split: option.splits)

lemma average_lines_pong [simp]: "foldl pong_step Quiet (average_lines sz ds) = Quiet"
  by (simp add: average_lines_def)

lemma ServeHTTP_pong: "foldl pong_step Quiet (trace (ServeHTTP s r e)) = Quiet"
proof (cases "Upgrade (upgrader s) r (handshake e)")
  case None
  from ServeHTTP_run [OF this] obtain evs where
    "echo_events evs" "trace (ServeHTTP s r e) = evs @ teardown (env_close e)"
    by blast
  then show ?thesis
    by (simp add: echo_events_pong)
next
  case (Some err)
  then show ?thesis
    by (simp add: ServeHTTP_def)
qed

lemma Ping_pong: "foldl pong_step Quiet (trace (snd (Ping e n sz))) = Quiet"
proof (cases "handshake e")
  case None
  from Ping_run [OF this, of n sz] obtain evs x where
    "ping_events n sz 0 [] evs x"
    "trace (snd (Ping e n sz)) =
       evs @ (case x of LoopDone ds \<Rightarrow> average_lines sz ds | Exit out \<Rightarrow> []) @
         teardown (env_close e)"
    by blast
  then show ?thesis
    by (simp add: ping_events_pong split: loop_exit.splits)
next
  case (Some err)
  then show ?thesis
    by (simp add: Ping_dial_failure)
qed

lemma close_calls_append [simp]: "close_calls (xs @ ys) = close_calls xs @ close_calls ys"
  by (induction xs rule: close_calls.induct) simp_all

lemma close_calls_teardown [simp]: "close_calls (teardown c) = [c]"
  by (simp add: teardown_def split: option.splits)

lemma read_events_close_calls: "read_events evs r \<Longrightarrow> close_calls evs = []"
  by (induction rule: read_events.induct) simp_all

lemma echo_events_close_calls: "echo_events evs \<Longrightarrow> close_calls evs = []"
  by (induction rule: echo_events.induct) (simp_all add: read_events_close_calls)

lemma ServeHTTP_loop_trace:
  "Upgrade (upgrader s) r (handshake e) = None \<Longrightarrow>
   trace (ServeHTTP s r e) = trace (echo_loop (frames e) (init_world e)) @ teardown (env_close e)"
  using echo_loop_spec [of "frames e" "init_world e"]
  by (auto simp: ServeHTTP_def teardown_def)

lemma NewServer_upgrade: "Upgrade (upgrader NewServer) r hs = hs"
  by (simp add: NewServer_def Upgrade_def)

lemma no_close_simps [simp]:
  "no_close []" "no_close (ev # evs) \<longleftrightarrow> \<not> is_close_frame ev \<and> no_close evs"
  "no_close (xs @ ys) \<longleftrightarrow> no_close xs \<and> no_close ys"
  by (auto simp: no_close_def)

lemma no_close_teardown [simp]: "no_close (teardown c)"
  by (simp add: teardown_def split: option.splits)

lemma close_split_unique:
  "no_close A \<Longrightarrow> no_close B \<Longrightarrow> is_close_frame x \<Longrightarrow>
   A @ x0 # B = pre @ x # post \<Longrightarrow> pre = A \<and> x = x0 \<and> post = B"
proof (induction A arbitrary: pre)
  case Nil
  then show ?case
    by (cases pre) auto
next
  case (Cons a A)
  then show ?case
    by (cases pre) auto
qed

lemma read_events_close:
  "read_events evs r \<Longrightarrow>
   no_close evs \<or>
   (\<exists>A c t. evs = A @ [Recv (CloseFrame c t), Log (LogClose c t), Cancel]
      \<and> no_close A \<and> r = Inl (CloseError c t))"
proof (induction rule: read_events.induct)
  case (re_ping evs r p)
  then show ?case
    by (auto intro: exI [of _ "Recv (PingFrame p) # Log (LogPing p) # Write PongMessage p None # A" for A])
next
  case (re_pong evs r p)
  then show ?case
    by (auto intro: exI [of _ "Recv (PongFrame p) # Log (LogPong p) # A" for A])
next
  case (re_close c t)
  show ?case
    by (rule disjI2, rule exI [of _ "[]"]) simp
qed simp_all

lemma read_events_data_no_close: "read_events evs (Inr m) \<Longrightarrow> no_close evs"
  using read_events_close by fastforce

lemma echo_events_close:
  "echo_events evs \<Longrightarrow>
   no_close evs \<or>
   (\<exists>A c t. evs = A @ [Recv (CloseFrame c t), Log (LogClose c t), Cancel,
                 Log (LogError (Wrapped ''couldn't read'' (CloseError c t)))]
      \<and> no_close A)"
proof (induction rule: echo_events.induct)
  case ee_done
  show ?case by simp
next
  case (ee_read_fail evs err)
  from read_events_close [OF this] show ?case
  proof
    assume "no_close evs"
    then show ?thesis by simp
  next
    assume "\<exists>A c t. evs = A @ [Recv (CloseFrame c t), Log (LogClose c t), Cancel]
      \<and> no_close A \<and> Inl err = Inl (CloseError c t)"
    then obtain A c t where
      "evs = A @ [Recv (CloseFrame c t), Log (LogClose c t), Cancel]" "no_close A"
      "err = CloseError c t"
      by auto
    then have "ReadCall # evs @ [Log (LogError (Wrapped ''couldn't read'' err))] =
        (ReadCall # A) @ [Recv (CloseFrame c t), Log (LogClose c t), Cancel,
           Log (LogError (Wrapped ''couldn't read'' (CloseError c t)))]
        \<and> no_close (ReadCall # A)"
      by simp
    then show ?thesis by blast
  qed
next
  case (ee_write_fail evs mt p err)
  from read_events_data_no_close [OF this] show ?case by simp
next
  case (ee_echo evs mt p rest)
  note nc = read_events_data_no_close [OF ee_echo(1)]
  from ee_echo(3) show ?case
  proof
    assume "no_close rest"
    with nc show ?thesis by simp
  next
    assume "\<exists>A c t. rest = A @ [Recv (CloseFrame c t), Log (LogClose c t), Cancel,
                 Log (LogError (Wrapped ''couldn't read'' (CloseError c t)))]
      \<and> no_close A"
    then obtain A c t where
      "rest = A @ [Recv (CloseFrame c t), Log (LogClose c t), Cancel,
                 Log (LogError (Wrapped ''couldn't read'' (CloseError c t)))]" "no_close A"
      by auto
    with nc have "ReadCall # evs @ Log (LogRecv (length p)) # Write mt p None # rest =
        (ReadCall # evs @ Log (LogRecv (length p)) # Write mt p None # A) @
          [Recv (CloseFrame c t), Log (LogClose c t), Cancel,
           Log (LogError (Wrapped ''couldn't read'' (CloseError c t)))]
        \<and> no_close (ReadCall # evs @ Log (LogRecv (length p)) # Write mt p None # A)"
      by simp
    then show ?thesis by blast
  qed
qed

lemma read_events_quiet:
  "read_events evs r \<Longrightarrow>
   frames_written evs = [] \<and> (\<forall>g. Log (LogError g) \<notin> set evs) \<and> Log LogAverage \<notin> set evs
   \<and> (\<forall>d x. Write BinaryMessage d x \<notin> set evs)"
  by (induction rule: read_events.induct) simp_all



lemma in_teardown_iff:
  "ev \<in> set (teardown c) \<longleftrightarrow>
   ev = CloseConn c \<or> ev = Cancel \<or> (\<exists>err. c = Some err \<and> ev = Log (LogError (Wrapped ''couldn't close'' err)))"
  by (auto simp: teardown_def split: option.splits)


lemmas client_defs =
  Ping_def init_world_def ping_loop.simps ctx_done_def report_average_def go_div_def
  ReadMessage_def WriteMessage_def pingHandler_def pongHandler_def closeHandler_def
  deferred_close_def Close_def cancel_def logf_def emit_def time_since_def word_sless_alt

lemma frames_written_append [simp]:
  "frames_written (xs @ ys) = frames_written xs @ frames_written ys"
  by (induction xs rule: frames_written.induct) simp_all

lemma sent_durations_append [simp]:
  "sent_durations (xs @ ys) = sent_durations xs @ sent_durations ys"
  by (induction xs rule: sent_durations.induct) simp_all

lemma read_events_no_samples: "read_events evs r \<Longrightarrow> sent_durations evs = []"
  by (induction rule: read_events.induct) simp_all

lemma sint_next: "i <s (n :: go_int) \<Longrightarrow> sint (i + 1) = sint i + 1"
proof -
  assume "i <s n"
  then have "sint i < sint n"
    by (simp add: word_sless_alt)
  moreover have "sint n < 2 ^ 63"
    using sint_lt [of n] by simp
  moreover have "- (2 ^ 63) \<le> sint i"
    using sint_ge [of i] by simp
  ultimately show ?thesis
    by (simp add: sint_word_ariths signed_take_bit_int_eq_self)
qed

lemma ping_events_writes:
  "ping_events n sz i es evs x \<Longrightarrow>
   \<exists>k. frames_written evs = replicate k (BinaryMessage, replicate (nat (sint sz)) 0)"
proof (induction rule: ping_events.induct)
  case (pe_write_fail i n sz es err)
  show ?case
    by (rule exI [of _ 1]) simp
next
  case (pe_read_fail i n sz evs err es)
  from read_events_quiet [OF pe_read_fail(3)] show ?case
    by (intro exI [of _ 1]) simp
next
  case (pe_round i n sz evs m es d rest x)
  from pe_round(5) obtain k where
    "frames_written rest = replicate k (BinaryMessage, replicate (nat (sint sz)) 0)"
    by blast
  with read_events_quiet [OF pe_round(3)] show ?case
    by (intro exI [of _ "Suc k"]) simp
qed simp_all

lemma ping_events_done:
  "ping_events n sz i es evs x \<Longrightarrow> sint i \<le> sint n \<Longrightarrow> x = LoopDone ds \<Longrightarrow>
   ds = es @ sent_durations evs
   \<and> length (sent_durations evs) \<le> nat (sint n - sint i)
   \<and> frames_written evs =
       replicate
         (length (sent_durations evs) +
            (if length (sent_durations evs) < nat (sint n - sint i) then 1 else 0))
         (BinaryMessage, replicate (nat (sint sz)) 0)"
proof (induction rule: ping_events.induct)
  case (pe_end i n sz es)
  then show ?case
    by (simp add: word_sless_alt)
next
  case (pe_read_fail i n sz evs err es)
  with read_events_quiet [OF pe_read_fail(3)] read_events_no_samples [OF pe_read_fail(3)]
  show ?case
    by (simp add: word_sless_alt)
next
  case (pe_round i n sz evs m es d rest x)
  have lt: "sint i < sint n"
    using pe_round(1) by (simp add: word_sless_alt)
  have nx: "sint (i + 1) = sint i + 1"
    by (rule sint_next [OF pe_round(1)])
  have "sint (i + 1) \<le> sint n"
    using lt nx by simp
  from pe_round(5) [OF this pe_round(7)]
  have ih: "ds = (es @ [d]) @ sent_durations rest"
    "length (sent_durations rest) \<le> nat (sint n - sint (i + 1))"
    "frames_written rest =
       replicate
         (length (sent_durations rest) +
            (if length (sent_durations rest) < nat (sint n - sint (i + 1)) then 1 else 0))
         (BinaryMessage, replicate (nat (sint sz)) 0)"
    by simp_all
  have r: "nat (sint n - sint i) = Suc (nat (sint n - sint (i + 1)))"
    using lt nx by simp
  from ih r read_events_quiet [OF pe_round(3)] read_events_no_samples [OF pe_round(3)]
  show ?case
    by simp
qed simp_all

lemma frames_written_teardown [simp]: "frames_written (teardown c) = []"
  by (simp add: teardown_def split: option.splits)

lemma frames_written_average_lines [simp]: "frames_written (average_lines sz ds) = []"
  by (simp add: average_lines_def)

lemma ping_events_no_average: "ping_events n sz i es evs x \<Longrightarrow> Log LogAverage \<notin> set evs"
proof (induction rule: ping_events.induct)
  case (pe_read_fail i n sz evs err es)
  from read_events_quiet [OF pe_read_fail(3)] show ?case by simp
next
  case (pe_round i n sz evs m es d rest x)
  from read_events_quiet [OF pe_round(3)] pe_round(5) show ?case by simp
qed simp_all






lemmas run_defs =
  ServeHTTP_def Upgrade_def NewServer_def init_world_def echo_loop.simps ctx_done_def
  ReadMessage_def WriteMessage_def pingHandler_def pongHandler_def closeHandler_def
  deferred_close_def Close_def cancel_def logf_def emit_def time_since_def

section \<open>Properties\<close>

text \<open>
  C1. Echo identity. In every run of the handler, each text or binary frame that
  \<open>ReadMessage\<close> hands to the echo loop is answered by exactly one call of
  \<open>WriteMessage\<close> with the same message type and the same payload, with nothing but the
  log line in between, so before the next read: the monitor ends in \<open>Idle\<close>, never
  \<open>Broken\<close>, with nothing owed. Hence the text and binary writes of the run are the
  frames read, in the same order.
\<close>

theorem ServeHTTP_echoes_every_frame:
  "foldl echo_step Idle (trace (ServeHTTP s r e)) = Idle
   \<and> frames_written (trace (ServeHTTP s r e)) = frames_read (trace (ServeHTTP s r e))"
proof -
  obtain evs where ev: "echo_events evs" and
    tr: "trace (ServeHTTP s r e) =
       (case Upgrade (upgrader s) r (handshake e) of
          Some err \<Rightarrow> [Log (LogError (Wrapped ''couldn't upgrade'' err)), Cancel]
        | None \<Rightarrow>
            evs @ CloseConn (env_close e) #
              (case env_close e of None \<Rightarrow> []
               | Some err \<Rightarrow> [Log (LogError (Wrapped ''couldn't close'' err))]) @ [Cancel])"
    using ServeHTTP_trace by blast
  have "foldl echo_step Idle (trace (ServeHTTP s r e)) = Idle"
    unfolding tr using echo_events_echo [OF ev] by (simp split: option.splits)
  then show ?thesis
    using echo_monitor_frames [of Idle] by simp
qed

theorem ServeHTTP_echoes_every_frame_witness:
  "frames_read (trace (ServeHTTP NewServer plain_request echo_env))
     = [(TextMessage, [104, 105]), (BinaryMessage, [0, 255])]
   \<and> frames_written (trace (ServeHTTP NewServer plain_request echo_env))
     = [(TextMessage, [104, 105]), (BinaryMessage, [0, 255])]
   \<and> foldl echo_step Idle (trace (ServeHTTP NewServer plain_request echo_env)) = Idle"
proof -
  have "frames_read (trace (ServeHTTP NewServer plain_request echo_env))
     = [(TextMessage, [104, 105]), (BinaryMessage, [0, 255])]"
    by (simp add: echo_env_def run_defs)
  then show ?thesis
    using ServeHTTP_echoes_every_frame [of NewServer plain_request echo_env] by simp
qed

text \<open>
  C2. Ping and pong. In every run of the handler and in every run of the client, each
  ping frame received is followed at once by the log line of its payload and by exactly
  one call of \<open>WriteMessage\<close> for a pong with that same payload; each pong frame
  received is followed by its log line only, and no write follows it; no pong is written
  at any other place. Hence the pongs written are the payloads of the pings received,
  in order.
\<close>

theorem ping_answered_by_one_pong:
  "foldl pong_step Quiet (trace (ServeHTTP s r e)) = Quiet
   \<and> pongs_written (trace (ServeHTTP s r e)) = pings_read (trace (ServeHTTP s r e))
   \<and> foldl pong_step Quiet (trace (snd (Ping e n sz))) = Quiet
   \<and> pongs_written (trace (snd (Ping e n sz))) = pings_read (trace (snd (Ping e n sz)))"
  using ServeHTTP_pong [of s r e] Ping_pong [of e n sz]
    pong_monitor_payloads [of Quiet "trace (ServeHTTP s r e)"]
    pong_monitor_payloads [of Quiet "trace (snd (Ping e n sz))"]
  by simp

theorem ping_answered_by_one_pong_witness:
  "pings_read (trace (ServeHTTP NewServer plain_request control_env)) = [[1, 2], [3]]
   \<and> pongs_written (trace (ServeHTTP NewServer plain_request control_env)) = [[1, 2], [3]]
   \<and> pings_read (trace (snd (Ping control_env 2 1))) = [[1, 2], [3]]
   \<and> pongs_written (trace (snd (Ping control_env 2 1))) = [[1, 2], [3]]
   \<and> foldl pong_step Quiet (trace (ServeHTTP NewServer plain_request control_env)) = Quiet
   \<and> foldl pong_step Quiet (trace (snd (Ping control_env 2 1))) = Quiet"
proof -
  have "pings_read (trace (ServeHTTP NewServer plain_request control_env)) = [[1, 2], [3]]"
    by (simp add: control_env_def run_defs)
  moreover have "pings_read (trace (snd (Ping control_env 2 1))) = [[1, 2], [3]]"
    by (simp add: control_env_def client_defs)
  ultimately show ?thesis
    using ping_answered_by_one_pong [of NewServer plain_request control_env 2 1] by simp
qed

text \<open>
  C3. Cancellation in the client. The specification says that a run cancelled after
  \<open>k\<close> completed iterations reports statistics over its \<open>k\<close> samples. It does not: here the
  parent context is found done at the boundary check of the second of two iterations,
  after one completed round trip with the sample \<open>10\<close>. \<open>Ping\<close> returns \<open>nil\<close>, and its
  trace has the line of the one round trip but neither \<open>average:\<close> nor a summary line.
\<close>

theorem cancelled_run_reports_nothing:
  "fst (Ping cancel_after_one_env 2 2) = Returned None
   \<and> trace (snd (Ping cancel_after_one_env 2 2)) =
       [Write BinaryMessage [0, 0] None, ReadCall, Recv (BinaryFrame [0, 0]),
        Log (LogSent 2 10), CloseConn None, Cancel]
   \<and> Log LogAverage \<notin> set (trace (snd (Ping cancel_after_one_env 2 2)))
   \<and> average_lines 2 [10] = [Log LogAverage, Log (LogSent 2 10)]"
  by (simp add: cancel_after_one_env_def client_defs average_lines_def eval_nat_numeral)

text \<open>
  C3, as the code has it. When the boundary check of an iteration \<open>i < n\<close> finds the
  context done, the loop leaves \<open>Ping\<close> at once with \<open>nil\<close> (line 161) and adds nothing to
  the trace. A run of \<open>Ping\<close> that ends this way returns \<open>nil\<close>; after the loop's steps
  come only the deferred close and cancel, and no \<open>average:\<close> line is logged anywhere in
  the run, whatever the number of samples collected.
\<close>

theorem cancellation_returns_nil_without_summary:
  "(i <s n \<and> ctx_done w = (True, w0) \<longrightarrow>
      ping_loop i n sz es ins w = (Exit (Returned None), w0) \<and> trace w0 = trace w)
   \<and> (handshake e = None
        \<and> ping_loop 0 n sz [] (frames e) (init_world e) = (Exit (Returned None), w') \<longrightarrow>
      fst (Ping e n sz) = Returned None
      \<and> trace (snd (Ping e n sz)) = trace w' @ teardown (env_close e)
      \<and> Log LogAverage \<notin> set (trace (snd (Ping e n sz))))"
proof -
  have step: "ping_loop i n sz es ins w = (Exit (Returned None), w0) \<and> trace w0 = trace w"
    if "i <s n \<and> ctx_done w = (True, w0)"
    using that ctx_done_spec [of w True w0] by (simp add: ping_loop.simps [of i n sz es ins w])
  have run: "fst (Ping e n sz) = Returned None
      \<and> trace (snd (Ping e n sz)) = trace w' @ teardown (env_close e)
      \<and> Log LogAverage \<notin> set (trace (snd (Ping e n sz)))"
    if a: "handshake e = None
      \<and> ping_loop 0 n sz [] (frames e) (init_world e) = (Exit (Returned None), w')"
  proof -
    from Ping_run [of e n sz] a obtain evs x w1 where
      run: "ping_loop 0 n sz [] (frames e) (init_world e) = (x, w1)"
      and pe: "ping_events n sz 0 [] evs x"
      and tw: "trace w1 = evs"
      and out: "fst (Ping e n sz) = (case x of LoopDone ds \<Rightarrow> Returned None | Exit out \<Rightarrow> out)"
      and tr: "trace (snd (Ping e n sz)) =
         evs @ (case x of LoopDone ds \<Rightarrow> average_lines sz ds | Exit out \<Rightarrow> []) @
           teardown (env_close e)"
      by blast
    from run a have x: "x = Exit (Returned None)" and w: "w1 = w'"
      by simp_all
    from x tr tw w have t: "trace (snd (Ping e n sz)) = trace w' @ teardown (env_close e)"
      by simp
    from ping_events_no_average [OF pe] tw w
    have "Log LogAverage \<notin> set (trace (snd (Ping e n sz)))"
      unfolding t by (auto simp: in_teardown_iff)
    with x out t show ?thesis
      by simp
  qed
  from step run show ?thesis
    by blast
qed

theorem cancellation_returns_nil_without_summary_witness:
  "(1 :: go_int) <s 2
   \<and> ctx_done ((init_world cancel_after_one_env)\<lparr>parent_done := [True]\<rparr>) =
       (True, (init_world cancel_after_one_env)\<lparr>parent_done := []\<rparr>)
   \<and> ping_loop 1 2 2 [10] [BinaryFrame [0, 0]]
         ((init_world cancel_after_one_env)\<lparr>parent_done := [True]\<rparr>) =
       (Exit (Returned None), (init_world cancel_after_one_env)\<lparr>parent_done := []\<rparr>)
   \<and> handshake cancel_after_one_env = None
   \<and> fst (ping_loop 0 2 2 [] (frames cancel_after_one_env) (init_world cancel_after_one_env))
       = Exit (Returned None)
   \<and> fst (Ping cancel_after_one_env 2 2) = Returned None
   \<and> Log LogAverage \<notin> set (trace (snd (Ping cancel_after_one_env 2 2)))"
proof -
  have i: "(1 :: go_int) <s 2"
    by (simp add: word_sless_alt)
  have c: "ctx_done ((init_world cancel_after_one_env)\<lparr>parent_done := [True]\<rparr>) =
       (True, (init_world cancel_after_one_env)\<lparr>parent_done := []\<rparr>)"
    by (simp add: ctx_done_def init_world_def)
  have h: "handshake cancel_after_one_env = None"
    by (simp add: cancel_after_one_env_def)
  have l: "fst (ping_loop 0 2 2 [] (frames cancel_after_one_env) (init_world cancel_after_one_env))
       = Exit (Returned None)"
    by (simp add: cancel_after_one_env_def client_defs eval_nat_numeral)
  then have "ping_loop 0 2 2 [] (frames cancel_after_one_env) (init_world cancel_after_one_env)
       = (Exit (Returned None),
          snd (ping_loop 0 2 2 [] (frames cancel_after_one_env) (init_world cancel_after_one_env)))"
    by (metis prod.collapse)
  with i c h l cancellation_returns_nil_without_summary
    [where i = 1 and n = 2 and sz = 2 and es = "[10]" and ins = "[BinaryFrame [0, 0]]"
      and w = "(init_world cancel_after_one_env)\<lparr>parent_done := [True]\<rparr>"
      and w0 = "(init_world cancel_after_one_env)\<lparr>parent_done := []\<rparr>"
      and e = cancel_after_one_env and w' =
      "snd (ping_loop 0 2 2 [] (frames cancel_after_one_env) (init_world cancel_after_one_env))"]
  show ?thesis
    by blast
qed






text \<open>
  C6. Teardown. When the upgrade succeeds, whatever ends the echo loop (a close frame, a
  read error, a write error, a cancelled context), the handler's trace is the loop's
  trace followed by the deferred steps: one call of \<open>conn.Close\<close>, the log line of its
  error if it returned one, and \<open>cancel\<close>. The loop itself never calls \<open>conn.Close\<close>, so
  the connection is closed exactly once. The error of \<open>Close\<close> goes to the log only:
  \<open>ServeHTTP\<close> returns no value.
\<close>

theorem connection_closed_exactly_once:
  assumes "Upgrade (upgrader s) r (handshake e) = None"
  shows "trace (ServeHTTP s r e) =
           trace (echo_loop (frames e) (init_world e)) @ teardown (env_close e)
         \<and> close_calls (trace (echo_loop (frames e) (init_world e))) = []
         \<and> close_calls (trace (ServeHTTP s r e)) = [env_close e]"
proof -
  from echo_loop_spec [of "frames e" "init_world e"] obtain evs where
    "trace (echo_loop (frames e) (init_world e)) = evs" "echo_events evs"
    by auto
  then show ?thesis
    using ServeHTTP_loop_trace [OF assms] by (simp add: echo_events_close_calls)
qed

theorem connection_closed_exactly_once_witness:
  "trace (ServeHTTP NewServer plain_request remote_close_env) =
     [ReadCall, Recv (TextFrame [1]), Log (LogRecv 1), Write TextMessage [1] None,
      ReadCall, Recv (CloseFrame 1000 ''bye''), Log (LogClose 1000 ''bye''), Cancel,
      Log (LogError (Wrapped ''couldn't read'' (CloseError 1000 ''bye''))),
      CloseConn (Some broken_pipe), Log (LogError (Wrapped ''couldn't close'' broken_pipe)),
      Cancel]
   \<and> close_calls (trace (ServeHTTP NewServer plain_request remote_close_env)) = [Some broken_pipe]
   \<and> close_calls (trace (ServeHTTP NewServer plain_request read_error_env)) = [None]
   \<and> close_calls (trace (ServeHTTP NewServer plain_request write_error_env)) = [None]
   \<and> close_calls (trace (ServeHTTP NewServer plain_request cancelled_env)) = [None]"
proof -
  have t: "trace (ServeHTTP NewServer plain_request remote_close_env) =
     [ReadCall, Recv (TextFrame [1]), Log (LogRecv 1), Write TextMessage [1] None,
      ReadCall, Recv (CloseFrame 1000 ''bye''), Log (LogClose 1000 ''bye''), Cancel,
      Log (LogError (Wrapped ''couldn't read'' (CloseError 1000 ''bye''))),
      CloseConn (Some broken_pipe), Log (LogError (Wrapped ''couldn't close'' broken_pipe)),
      Cancel]"
    by (simp add: remote_close_env_def run_defs)
  have "Upgrade (upgrader NewServer) plain_request (handshake remote_close_env) = None"
    by (simp add: NewServer_upgrade remote_close_env_def)
  from connection_closed_exactly_once [OF this]
  have a: "close_calls (trace (ServeHTTP NewServer plain_request remote_close_env))
      = [Some broken_pipe]"
    by (simp add: remote_close_env_def)
  have "Upgrade (upgrader NewServer) plain_request (handshake read_error_env) = None"
    by (simp add: NewServer_upgrade read_error_env_def)
  from connection_closed_exactly_once [OF this]
  have b: "close_calls (trace (ServeHTTP NewServer plain_request read_error_env)) = [None]"
    by (simp add: read_error_env_def)
  have "Upgrade (upgrader NewServer) plain_request (handshake write_error_env) = None"
    by (simp add: NewServer_upgrade write_error_env_def)
  from connection_closed_exactly_once [OF this]
  have c: "close_calls (trace (ServeHTTP NewServer plain_request write_error_env)) = [None]"
    by (simp add: write_error_env_def)
  have "Upgrade (upgrader NewServer) plain_request (handshake cancelled_env) = None"
    by (simp add: NewServer_upgrade cancelled_env_def)
  from connection_closed_exactly_once [OF this]
  have d: "close_calls (trace (ServeHTTP NewServer plain_request cancelled_env)) = [None]"
    by (simp add: cancelled_env_def)
  from t a b c d show ?thesis
    by blast
qed


text \<open>
  C7. Close ends the session. When a close frame arrives on an upgraded connection, what
  follows it in the handler's trace is exactly: the close handler's log line and its call
  of \<open>cancel\<close> (after which the context is cancelled), the log line of the read that
  ended with the close error, and the deferred close and cancel. So after the close
  frame there is no call of \<open>ReadMessage\<close> and no call of \<open>WriteMessage\<close>, and
  \<open>conn.Close\<close> is called once, after the frame and not before.
\<close>

theorem close_frame_ends_session:
  assumes up: "Upgrade (upgrader s) r (handshake e) = None"
    and split: "trace (ServeHTTP s r e) = pre @ Recv (CloseFrame code reason) # post"
  shows "post =
           [Log (LogClose code reason), Cancel,
            Log (LogError (Wrapped ''couldn't read'' (CloseError code reason)))] @
           teardown (env_close e)
         \<and> ReadCall \<notin> set post \<and> frames_written post = [] \<and> pongs_written post = []
         \<and> close_calls pre = [] \<and> close_calls post = [env_close e]
         \<and> cancelled (snd (closeHandler code reason w))"
proof -
  from ServeHTTP_run [OF up] obtain evs where
    ev: "echo_events evs" and tr: "trace (ServeHTTP s r e) = evs @ teardown (env_close e)"
    by blast
  have "\<not> no_close (trace (ServeHTTP s r e))"
    using split by simp
  with tr have "\<not> no_close evs"
    by simp
  with echo_events_close [OF ev] obtain A c t where
    evs: "evs = A @ [Recv (CloseFrame c t), Log (LogClose c t), Cancel,
                 Log (LogError (Wrapped ''couldn't read'' (CloseError c t)))]"
    and A: "no_close A"
    by blast
  let ?B = "[Log (LogClose c t), Cancel,
             Log (LogError (Wrapped ''couldn't read'' (CloseError c t)))] @ teardown (env_close e)"
  have "A @ Recv (CloseFrame c t) # ?B = pre @ Recv (CloseFrame code reason) # post"
    using split tr evs by simp
  moreover have "no_close ?B"
    by simp
  ultimately have u: "pre = A \<and> Recv (CloseFrame code reason) = Recv (CloseFrame c t) \<and> post = ?B"
    using A by (intro close_split_unique) simp_all
  have "close_calls evs = []"
    by (rule echo_events_close_calls [OF ev])
  then have "close_calls A = []"
    by (simp add: evs)
  with u show ?thesis
    by (auto simp: teardown_def closeHandler_def cancel_def split: option.splits)
qed

theorem close_frame_ends_session_witness:
  "Upgrade (upgrader NewServer) plain_request (handshake remote_close_env) = None
   \<and> trace (ServeHTTP NewServer plain_request remote_close_env) =
     [ReadCall, Recv (TextFrame [1]), Log (LogRecv 1), Write TextMessage [1] None, ReadCall] @
     Recv (CloseFrame 1000 ''bye'') #
     [Log (LogClose 1000 ''bye''), Cancel,
      Log (LogError (Wrapped ''couldn't read'' (CloseError 1000 ''bye''))),
      CloseConn (Some broken_pipe), Log (LogError (Wrapped ''couldn't close'' broken_pipe)),
      Cancel]
   \<and> [Log (LogClose 1000 ''bye''), Cancel,
      Log (LogError (Wrapped ''couldn't read'' (CloseError 1000 ''bye''))),
      CloseConn (Some broken_pipe), Log (LogError (Wrapped ''couldn't close'' broken_pipe)),
      Cancel] =
     [Log (LogClose 1000 ''bye''), Cancel,
      Log (LogError (Wrapped ''couldn't read'' (CloseError 1000 ''bye'')))] @
     teardown (env_close remote_close_env)
   \<and> close_calls [Log (LogClose 1000 ''bye''), Cancel,
      Log (LogError (Wrapped ''couldn't read'' (CloseError 1000 ''bye''))),
      CloseConn (Some broken_pipe), Log (LogError (Wrapped ''couldn't close'' broken_pipe)),
      Cancel] = [env_close remote_close_env]"
proof -
  have up: "Upgrade (upgrader NewServer) plain_request (handshake remote_close_env) = None"
    by (simp add: NewServer_upgrade remote_close_env_def)
  have split: "trace (ServeHTTP NewServer plain_request remote_close_env) =
     [ReadCall, Recv (TextFrame [1]), Log (LogRecv 1), Write TextMessage [1] None, ReadCall] @
       Recv (CloseFrame 1000 ''bye'') #
       [Log (LogClose 1000 ''bye''), Cancel,
        Log (LogError (Wrapped ''couldn't read'' (CloseError 1000 ''bye''))),
        CloseConn (Some broken_pipe), Log (LogError (Wrapped ''couldn't close'' broken_pipe)),
        Cancel]"
    by (simp add: remote_close_env_def run_defs)
  from close_frame_ends_session [OF up split] up split show ?thesis
    by blast
qed

text \<open>
  C8. What the client sends. In every run of \<open>Ping\<close> the text and binary frames
  written are all binary frames of \<open>size\<close> zero bytes. When the loop runs to its end and
  has collected \<open>n\<close> samples (every one of the \<open>n\<close> iterations sent, was answered and
  was not cancelled), exactly \<open>n\<close> such frames were written.
\<close>

theorem client_sends_zero_filled_binary_frames:
  "(\<exists>k. frames_written (trace (snd (Ping e n sz))) =
          replicate k (BinaryMessage, replicate (nat (sint sz)) 0))
   \<and> (handshake e = None
        \<and> ping_loop 0 n sz [] (frames e) (init_world e) = (LoopDone ds, w')
        \<and> length ds = nat (sint n) \<longrightarrow>
      frames_written (trace (snd (Ping e n sz))) =
        replicate (nat (sint n)) (BinaryMessage, replicate (nat (sint sz)) 0))"
proof (cases "handshake e")
  case (Some err)
  then show ?thesis
    by (simp add: Ping_dial_failure)
next
  case None
  from Ping_run [OF this, of n sz] obtain evs x w1 where
    run: "ping_loop 0 n sz [] (frames e) (init_world e) = (x, w1)"
    and pe: "ping_events n sz 0 [] evs x"
    and tr: "trace (snd (Ping e n sz)) =
       evs @ (case x of LoopDone ds \<Rightarrow> average_lines sz ds | Exit out \<Rightarrow> []) @
         teardown (env_close e)"
    by blast
  have fw: "frames_written (trace (snd (Ping e n sz))) = frames_written evs"
    unfolding tr by (simp split: loop_exit.splits)
  have a: "\<exists>k. frames_written (trace (snd (Ping e n sz))) =
          replicate k (BinaryMessage, replicate (nat (sint sz)) 0)"
    unfolding fw by (rule ping_events_writes [OF pe])
  have b: "frames_written (trace (snd (Ping e n sz))) =
        replicate (nat (sint n)) (BinaryMessage, replicate (nat (sint sz)) 0)"
    if fin: "ping_loop 0 n sz [] (frames e) (init_world e) = (LoopDone ds, w')"
      and len: "length ds = nat (sint n)"
  proof (cases "0 \<le> sint n")
    case True
    from fin run have x: "x = LoopDone ds"
      by simp
    have "sint (0 :: go_int) \<le> sint n"
      using True by simp
    from ping_events_done [OF pe this x] len show ?thesis
      unfolding fw by simp
  next
    case False
    then have "\<not> 0 <s n"
      by (simp add: word_sless_alt)
    with pe have "evs = []"
      by (cases rule: ping_events.cases) simp_all
    with False show ?thesis
      unfolding fw by simp
  qed
  from a b show ?thesis
    by blast
qed

theorem client_sends_zero_filled_binary_frames_witness:
  "handshake three_replies_env = None
   \<and> fst (ping_loop 0 3 16 [] (frames three_replies_env) (init_world three_replies_env))
       = LoopDone [10, 20, 31]
   \<and> length [10 :: duration, 20, 31] = nat (sint (3 :: go_int))
   \<and> frames_written (trace (snd (Ping three_replies_env 3 16))) =
       [(BinaryMessage, replicate 16 0), (BinaryMessage, replicate 16 0),
        (BinaryMessage, replicate 16 0)]"
proof -
  have h: "handshake three_replies_env = None"
    by (simp add: three_replies_env_def)
  have l: "fst (ping_loop 0 3 16 [] (frames three_replies_env) (init_world three_replies_env))
       = LoopDone [10, 20, 31]"
    by (simp add: three_replies_env_def client_defs)
  then have "ping_loop 0 3 16 [] (frames three_replies_env) (init_world three_replies_env)
       = (LoopDone [10, 20, 31],
          snd (ping_loop 0 3 16 [] (frames three_replies_env) (init_world three_replies_env)))"
    by (metis prod.collapse)
  with h client_sends_zero_filled_binary_frames [of three_replies_env 3 16 "[10, 20, 31]"
      "snd (ping_loop 0 3 16 [] (frames three_replies_env) (init_world three_replies_env))"]
  have "frames_written (trace (snd (Ping three_replies_env 3 16))) =
        replicate (nat (sint (3 :: go_int))) (BinaryMessage, replicate (nat (sint (16 :: go_int))) 0)"
    by simp
  with h l show ?thesis
    by (simp add: eval_nat_numeral)
qed


text \<open>
  C9. No iterations. When the dial succeeds and \<open>n \<le> 0\<close>, the loop is left at once
  with no sample, and \<open>Ping\<close> returns \<open>nil\<close>; its whole trace is the deferred close of
  the connection (with the log line of a close error) and \<open>cancel\<close>: nothing is written,
  nothing read, no summary logged.
\<close>

theorem no_iterations_no_frames:
  assumes "handshake e = None" and "n \<le>s 0"
  shows "ping_loop 0 n sz [] (frames e) (init_world e) = (LoopDone [], init_world e)
         \<and> Ping e n sz = (Returned None, cancel (deferred_close (init_world e)))
         \<and> trace (snd (Ping e n sz)) = teardown (env_close e)"
proof -
  have "\<not> 0 <s n"
    using assms(2) by (simp add: word_sless_alt word_sle_eq)
  then have "ping_loop 0 n sz [] (frames e) (init_world e) = (LoopDone [], init_world e)"
    by (simp add: ping_loop.simps [of 0 n])
  then show ?thesis
    using assms(1) by (simp add: Ping_def report_average_def teardown_def)
qed

theorem no_iterations_no_frames_witness:
  "handshake three_replies_env = None \<and> (- 1 :: go_int) \<le>s 0
   \<and> Ping three_replies_env (- 1) 16 =
       (Returned None, cancel (deferred_close (init_world three_replies_env)))
   \<and> trace (snd (Ping three_replies_env (- 1) 16)) = [CloseConn None, Cancel]"
proof -
  have h: "handshake three_replies_env = None"
    by (simp add: three_replies_env_def)
  have n: "(- 1 :: go_int) \<le>s 0"
    by (simp add: word_sle_eq)
  from no_iterations_no_frames [OF h n, of 16] h n show ?thesis
    by (simp add: teardown_def three_replies_env_def)
qed

text \<open>
  C10. The origin check of the server made by \<open>NewServer\<close> answers true for every
  request, whatever its Origin header, and so the upgrade of that server never fails with
  the transport's origin error: its result is the outcome of the rest of the handshake.
\<close>

theorem NewServer_accepts_any_origin:
  "CheckOrigin (upgrader NewServer) r = True
   \<and> Upgrade (upgrader NewServer) r hs = hs"
  by (simp add: NewServer_def Upgrade_def)

end
